theory Spec2Isabelle
  imports Complex_Main "HOL-Library.Char_ord" "HOL-Library.List_Lexorder"
begin

section \<open>The dashboard worker: tables, events and the merge loop\<close>

text \<open>
  A shallow embedding of \<^verbatim>\<open>src/worker.py\<close>. The SQLite database is a record of its four
  tables. Text columns are strings, a nullable column is an option, the INTEGER column
  \<^verbatim>\<open>online\<close> is an integer (the code writes 0 and 1 and counts the rows with 1).
  The table \<^verbatim>\<open>players\<close> is an association list from the primary key \<^verbatim>\<open>uuid\<close> to the other
  columns, in rowid order; the tables with an AUTOINCREMENT key are lists of rows in
  insertion order, each row with its id, and the database keeps the last id handed out
  (SQLite's \<^verbatim>\<open>sqlite_sequence\<close>). Timestamps are text, compared the way SQLite compares
  TEXT values: byte by byte, a proper prefix being smaller.
\<close>

subsection \<open>Tables\<close>

record player_row =
  p_name :: string
  p_online :: int
  p_last_login :: "string option"
  p_last_logout :: "string option"
  p_world :: "string option"
  p_total_playtime_seconds :: int

record perf_row =
  perf_id :: nat
  perf_timestamp :: string
  perf_tps :: "int option"
  perf_cpu_percent :: "real option"
  perf_ram_mb :: "real option"
  perf_ram_percent :: "real option"
  perf_view_radius :: "int option"
  perf_players_online :: nat

record event_row =
  pe_id :: nat
  pe_timestamp :: string
  pe_uuid :: string
  pe_name :: string
  pe_event_type :: string
  pe_world :: "string option"

record db =
  players :: "(string \<times> player_row) list"
  performance :: "perf_row list"
  performance_seq :: nat
  player_events :: "event_row list"
  player_events_seq :: nat
  metadata :: "(string \<times> string) list"

text \<open>The dictionaries that \<^verbatim>\<open>parse_player_events\<close> builds: \<^verbatim>\<open>type\<close> is \<^verbatim>\<open>"join"\<close> or
  \<^verbatim>\<open>"leave"\<close>, and \<^verbatim>\<open>world\<close> is \<^verbatim>\<open>None\<close> for a leave.\<close>

record event =
  ev_timestamp :: string
  ev_name :: string
  ev_world :: "string option"
  ev_uuid :: string
  ev_type :: string

subsection \<open>The SQL statements of the merge loop\<close>

text \<open>\<^verbatim>\<open>SELECT ... FROM players WHERE uuid = ?\<close>: the row of a key, if any.\<close>

definition lookup_player :: "db \<Rightarrow> string \<Rightarrow> player_row option" where
  "lookup_player d u = map_of (players d) u"

text \<open>\<^verbatim>\<open>UPDATE players SET ... WHERE uuid = ?\<close>: every row with the key is rewritten, the
  others and the order of the rows stay.\<close>

definition update_where :: "string \<Rightarrow> (player_row \<Rightarrow> player_row) \<Rightarrow>
    (string \<times> player_row) list \<Rightarrow> (string \<times> player_row) list" where
  "update_where u f ps = map (\<lambda>(k, r). if k = u then (k, f r) else (k, r)) ps"

text \<open>The row that \<^verbatim>\<open>INSERT INTO players (uuid, name, online, last_login, world)
  VALUES (?, ?, 1, ?, ?)\<close> creates: the columns it does not name take their defaults
  (\<^verbatim>\<open>last_logout\<close> NULL, \<^verbatim>\<open>total_playtime_seconds\<close> 0).\<close>

definition inserted_row :: "event \<Rightarrow> player_row" where
  "inserted_row e =
     \<lparr>p_name = ev_name e, p_online = 1, p_last_login = Some (ev_timestamp e),
      p_last_logout = None, p_world = ev_world e, p_total_playtime_seconds = 0\<rparr>"

text \<open>\<^verbatim>\<open>ON CONFLICT(uuid) DO UPDATE SET name = excluded.name, online = 1,
  last_login = excluded.last_login, world = excluded.world\<close>.\<close>

definition conflict_update :: "event \<Rightarrow> player_row \<Rightarrow> player_row" where
  "conflict_update e r =
     r\<lparr>p_name := ev_name e, p_online := 1, p_last_login := Some (ev_timestamp e),
       p_world := ev_world e\<rparr>"

definition upsert_join :: "event \<Rightarrow> (string \<times> player_row) list \<Rightarrow> (string \<times> player_row) list" where
  "upsert_join e ps =
     (if ev_uuid e \<in> fst ` set ps then update_where (ev_uuid e) (conflict_update e) ps
      else ps @ [(ev_uuid e, inserted_row e)])"

text \<open>\<^verbatim>\<open>UPDATE players SET online = 0, last_logout = ? WHERE uuid = ?\<close>.\<close>

definition leave_update :: "event \<Rightarrow> player_row \<Rightarrow> player_row" where
  "leave_update e r = r\<lparr>p_online := 0, p_last_logout := Some (ev_timestamp e)\<rparr>"

text \<open>\<^verbatim>\<open>INSERT INTO player_events (timestamp, uuid, name, event_type, world)\<close>: the new row
  takes the next id of the sequence.\<close>

definition log_event :: "event \<Rightarrow> db \<Rightarrow> db" where
  "log_event e d =
     d\<lparr>player_events := player_events d @
          [\<lparr>pe_id = Suc (player_events_seq d), pe_timestamp = ev_timestamp e,
            pe_uuid = ev_uuid e, pe_name = ev_name e, pe_event_type = ev_type e,
            pe_world = ev_world e\<rparr>],
       player_events_seq := Suc (player_events_seq d)\<rparr>"

text \<open>The body of \<^verbatim>\<open>for event in events\<close> in \<^verbatim>\<open>check_player_events\<close>: the branch on
  \<^verbatim>\<open>event["type"] == "join"\<close>, then the insert into the event log.\<close>

definition merge_event :: "event \<Rightarrow> db \<Rightarrow> db" where
  "merge_event e d =
     log_event e
       (if ev_type e = ''join'' then d\<lparr>players := upsert_join e (players d)\<rparr>
        else d\<lparr>players := update_where (ev_uuid e) (leave_update e) (players d)\<rparr>)"

text \<open>The loop itself, in batch order.\<close>

fun merge_events :: "event list \<Rightarrow> db \<Rightarrow> db" where
  "merge_events [] d = d"
| "merge_events (e # es) d = merge_events es (merge_event e d)"

text \<open>The columns of an event-log row other than its id.\<close>

definition row_of_event :: "event \<Rightarrow> string \<times> string \<times> string \<times> string \<times> string option" where
  "row_of_event e = (ev_timestamp e, ev_uuid e, ev_name e, ev_type e, ev_world e)"

definition row_columns :: "event_row \<Rightarrow> string \<times> string \<times> string \<times> string \<times> string option" where
  "row_columns r = (pe_timestamp r, pe_uuid r, pe_name r, pe_event_type r, pe_world r)"

subsection \<open>The ingestion tick\<close>

text \<open>The table \<^verbatim>\<open>metadata\<close>: \<^verbatim>\<open>SELECT value FROM metadata WHERE key = ?\<close> and
  \<^verbatim>\<open>INSERT INTO metadata (key, value) VALUES (?, ?) ON CONFLICT(key) DO UPDATE SET
  value = excluded.value\<close>.\<close>

definition select_metadata :: "db \<Rightarrow> string \<Rightarrow> string option" where
  "select_metadata d k = map_of (metadata d) k"

definition upsert_metadata :: "string \<Rightarrow> string \<Rightarrow> (string \<times> string) list \<Rightarrow> (string \<times> string) list" where
  "upsert_metadata k v m =
     (if k \<in> fst ` set m then map (\<lambda>(k', v'). if k' = k then (k', v) else (k', v')) m
      else m @ [(k, v)])"

text \<open>The checkpoint is the value stored under the key \<^verbatim>\<open>last_event_ts\<close>.\<close>

definition checkpoint :: "db \<Rightarrow> string option" where
  "checkpoint d = select_metadata d ''last_event_ts''"

definition since_ts :: "db \<Rightarrow> string" where
  "since_ts d = (case checkpoint d of Some v \<Rightarrow> v | None \<Rightarrow> ''3 days ago'')"

text \<open>
  \<^verbatim>\<open>check_player_events\<close>. The journal is outside the program: \<open>journalctl\<close> gives, for
  the value passed as \<^verbatim>\<open>--since\<close>, what \<^verbatim>\<open>run_cmd\<close> returns (the output and the return
  code). The extractor \<^verbatim>\<open>parse_player_events\<close> is the parameter \<open>parse\<close>: the tick is
  modelled for whatever list of events the extractor makes of the output. The commit
  and the message printed at the end are left out.
\<close>

definition check_player_events ::
    "(string \<Rightarrow> string \<times> int) \<Rightarrow> (string \<Rightarrow> event list) \<Rightarrow> db \<Rightarrow> db" where
  "check_player_events journalctl parse d =
     (let (output, rc) = journalctl (since_ts d) in
      if rc \<noteq> 0 then d
      else
        let events = parse output in
        if events = [] then d
        else
          let d' = merge_events events d;
              latest_ts = ev_timestamp (last events)
          in d'\<lparr>metadata := upsert_metadata ''last_event_ts'' latest_ts (metadata d')\<rparr>)"

subsection \<open>Retention\<close>



section \<open>The metric sampler\<close>



subsection \<open>Strings\<close>










subsection \<open>The two patterns\<close>











subsection \<open>\<^verbatim>\<open>collect_performance\<close> and \<^verbatim>\<open>save_performance\<close>\<close>













section \<open>The scheduler loop\<close>








section \<open>Auxiliary definitions for the proofs\<close>

text \<open>The effect of one event on the row of its own uuid, and on the table seen as a
  function from uuids to rows.\<close>

definition merge_row :: "event \<Rightarrow> player_row option \<Rightarrow> player_row option" where
  "merge_row e ro =
     (if ev_type e = ''join''
      then Some (case ro of None \<Rightarrow> inserted_row e | Some r \<Rightarrow> conflict_update e r)
      else map_option (leave_update e) ro)"

definition merge_map :: "event \<Rightarrow> (string \<Rightarrow> player_row option) \<Rightarrow> string \<Rightarrow> player_row option" where
  "merge_map e f = f(ev_uuid e := merge_row e (f (ev_uuid e)))"

fun run_map :: "event list \<Rightarrow> (string \<Rightarrow> player_row option) \<Rightarrow> string \<Rightarrow> player_row option" where
  "run_map [] f = f"
| "run_map (e # es) f = run_map es (merge_map e f)"

text \<open>Every leave of the batch meets a row: its uuid is among the keys \<open>ks\<close> the table
  has before the batch, or an earlier event of the batch is a join of that uuid.\<close>

fun leaves_known :: "string list \<Rightarrow> event list \<Rightarrow> bool" where
  "leaves_known ks [] = True"
| "leaves_known ks (e # es) =
     (if ev_type e = ''join'' then leaves_known (ev_uuid e # ks) es
      else ev_uuid e \<in> set ks \<and> leaves_known ks es)"


subsection \<open>Example inputs\<close>

text \<open>A database with no rows, and events of two players.\<close>

definition empty_db :: db where
  "empty_db = \<lparr>players = [], performance = [], performance_seq = 0, player_events = [],
     player_events_seq = 0, metadata = []\<rparr>"

definition alice_join :: event where
  "alice_join = \<lparr>ev_timestamp = ''2024-01-01T10:00:00+0000'', ev_name = ''Alice'',
     ev_world = Some ''Overworld'', ev_uuid = ''abc-123'', ev_type = ''join''\<rparr>"

definition alice_leave :: event where
  "alice_leave = \<lparr>ev_timestamp = ''2024-01-01T11:30:00+0000'', ev_name = ''Alice'',
     ev_world = None, ev_uuid = ''abc-123'', ev_type = ''leave''\<rparr>"

definition bob_join :: event where
  "bob_join = \<lparr>ev_timestamp = ''2024-01-01T12:00:00+0000'', ev_name = ''Bob'',
     ev_world = Some ''Nether'', ev_uuid = ''b0b-456'', ev_type = ''join''\<rparr>"

definition early_leave :: event where
  "early_leave = \<lparr>ev_timestamp = ''2024-01-01T09:00:00+0000'', ev_name = ''Alice'',
     ev_world = None, ev_uuid = ''abc-123'', ev_type = ''leave''\<rparr>"

text \<open>A database whose checkpoint is of 2 January; three samples with the timestamps
  \<^verbatim>\<open>save_performance\<close> writes (\<^verbatim>\<open>isoformat()\<close>), and the cutoffs SQLite computes at noon of
  10 January.\<close>

definition later_checkpoint_db :: db where
  "later_checkpoint_db = empty_db\<lparr>metadata := [(''last_event_ts'', ''2024-01-02T10:00:00+0000'')]\<rparr>"



















section \<open>Lemmas on the tables\<close>

lemma map_of_update_where:
  "map_of (update_where u f ps) k = (if k = u then map_option f (map_of ps k) else map_of ps k)"
  by (induction ps) (auto simp: update_where_def)

lemma keys_update_where: "map fst (update_where u f ps) = map fst ps"
  by (induction ps) (auto simp: update_where_def)

lemma update_where_absent: "u \<notin> fst ` set ps \<Longrightarrow> update_where u f ps = ps"
  by (induction ps) (auto simp: update_where_def)

lemma map_of_upsert_join:
  "map_of (upsert_join e ps) k =
     (if k = ev_uuid e
      then Some (case map_of ps k of None \<Rightarrow> inserted_row e | Some r \<Rightarrow> conflict_update e r)
      else map_of ps k)"
proof (cases "ev_uuid e \<in> fst ` set ps")
  case True
  then obtain r where "map_of ps (ev_uuid e) = Some r"
    by (metis domD dom_map_of_conv_image_fst)
  with True show ?thesis
    by (simp add: upsert_join_def map_of_update_where)
next
  case False
  then have "map_of ps (ev_uuid e) = None"
    by (simp add: map_of_eq_None_iff)
  with False show ?thesis
    by (auto simp: upsert_join_def map_add_def split: option.splits)
qed

lemma lookup_merge_event:
  "lookup_player (merge_event e d) k =
     (if k = ev_uuid e
      then (if ev_type e = ''join''
            then Some (case lookup_player d k of None \<Rightarrow> inserted_row e
                       | Some r \<Rightarrow> conflict_update e r)
            else map_option (leave_update e) (lookup_player d k))
      else lookup_player d k)"
  by (simp add: lookup_player_def merge_event_def log_event_def map_of_upsert_join
      map_of_update_where)

lemma player_events_merge_event:
  "player_events (merge_event e d) =
     player_events d @
       [\<lparr>pe_id = Suc (player_events_seq d), pe_timestamp = ev_timestamp e,
         pe_uuid = ev_uuid e, pe_name = ev_name e, pe_event_type = ev_type e,
         pe_world = ev_world e\<rparr>]"
  by (simp add: merge_event_def log_event_def)

lemma player_events_seq_merge_event:
  "player_events_seq (merge_event e d) = Suc (player_events_seq d)"
  by (simp add: merge_event_def log_event_def)


lemma keys_upsert_join:
  "distinct (map fst ps) \<Longrightarrow> distinct (map fst (upsert_join e ps))"
  by (auto simp: upsert_join_def keys_update_where)

lemma keys_merge_event:
  "distinct (map fst (players d)) \<Longrightarrow> distinct (map fst (players (merge_event e d)))"
  by (simp add: merge_event_def log_event_def keys_upsert_join keys_update_where)

lemma columns_merge_events:
  "map row_columns (player_events (merge_events es d)) =
     map row_columns (player_events d) @ map row_of_event es"
  by (induction es arbitrary: d)
    (simp_all add: player_events_merge_event row_columns_def row_of_event_def)

lemma seq_merge_events:
  "player_events_seq (merge_events es d) = player_events_seq d + length es"
  by (induction es arbitrary: d) (simp_all add: player_events_seq_merge_event)

lemma ids_merge_events:
  "map pe_id (player_events (merge_events es d)) =
     map pe_id (player_events d) @
       [Suc (player_events_seq d) ..< Suc (player_events_seq d + length es)]"
proof (induction es arbitrary: d)
  case Nil
  show ?case by simp
next
  case (Cons e es)
  have "[Suc (player_events_seq d) ..< Suc (player_events_seq d + length (e # es))] =
      Suc (player_events_seq d) #
        [Suc (Suc (player_events_seq d)) ..< Suc (Suc (player_events_seq d) + length es)]"
    by (subst upt_conv_Cons) simp_all
  then show ?case
    by (simp add: Cons.IH player_events_merge_event player_events_seq_merge_event)
qed

lemma lookup_empty_db: "lookup_player empty_db k = None"
  by (simp add: lookup_player_def empty_db_def)

subsection \<open>The table as a function, and repeated merges\<close>

lemma lookup_merge_event_map: "lookup_player (merge_event e d) = merge_map e (lookup_player d)"
  by (rule ext) (simp add: lookup_merge_event merge_map_def merge_row_def)

lemma lookup_merge_events: "lookup_player (merge_events es d) = run_map es (lookup_player d)"
  by (induction es arbitrary: d) (simp_all add: lookup_merge_event_map)

lemma run_map_snoc: "run_map (es @ [e]) f = merge_map e (run_map es f)"
  by (induction es arbitrary: f) simp_all

lemma dom_merge_map:
  "dom (merge_map e f) = (if ev_type e = ''join'' then insert (ev_uuid e) (dom f) else dom f)"
  by (auto simp: merge_map_def merge_row_def dom_def split: if_splits)

lemma leaves_known_mono:
  "leaves_known ks es \<Longrightarrow> set ks \<subseteq> set ks' \<Longrightarrow> leaves_known ks' es"
proof (induction es arbitrary: ks ks')
  case Nil
  show ?case by simp
next
  case (Cons e es)
  show ?case
  proof (cases "ev_type e = ''join''")
    case True
    with Cons.prems have "leaves_known (ev_uuid e # ks) es" by simp
    moreover from Cons.prems have "set (ev_uuid e # ks) \<subseteq> set (ev_uuid e # ks')" by auto
    ultimately have "leaves_known (ev_uuid e # ks') es" by (rule Cons.IH)
    with True show ?thesis by simp
  next
    case False
    with Cons.prems have "ev_uuid e \<in> set ks" and "leaves_known ks es" by simp_all
    with Cons.prems(2) Cons.IH [of ks ks'] False show ?thesis by auto
  qed
qed

lemma dom_run_map_mono: "dom f \<subseteq> dom (run_map es f)"
proof (induction es arbitrary: f)
  case Nil
  show ?case by simp
next
  case (Cons e es)
  have "dom f \<subseteq> dom (merge_map e f)" by (auto simp: dom_merge_map)
  also have "\<dots> \<subseteq> dom (run_map es (merge_map e f))" by (rule Cons.IH)
  finally show ?case by simp
qed

text \<open>Absorption: an event merged again after a later one adds nothing.\<close>

lemma merge_map_absorb:
  assumes "ev_type x \<noteq> ''join'' \<longrightarrow> ev_uuid x \<in> dom f"
  shows "merge_map e (merge_map x (merge_map e f)) = merge_map e (merge_map x f)"
proof (rule ext)
  fix k
  show "merge_map e (merge_map x (merge_map e f)) k = merge_map e (merge_map x f) k"
    using assms
    by (cases "f (ev_uuid e)"; cases "f (ev_uuid x)")
      (auto simp: merge_map_def merge_row_def conflict_update_def leave_update_def
        inserted_row_def)
qed

lemma run_map_absorb:
  assumes "leaves_known ks w" and "set ks \<subseteq> dom f"
  shows "merge_map e (run_map w (merge_map e f)) = merge_map e (run_map w f)"
  using assms
proof (induction w arbitrary: f ks)
  case Nil
  show ?case
    by (cases "f (ev_uuid e)")
      (auto simp: merge_map_def merge_row_def conflict_update_def leave_update_def
        inserted_row_def)
next
  case (Cons x w)
  define ks' where "ks' = (if ev_type x = ''join'' then ev_uuid x # ks else ks)"
  from Cons.prems have known: "leaves_known ks' w"
    by (simp add: ks'_def split: if_splits)
  from Cons.prems have x_ok: "ev_type x \<noteq> ''join'' \<longrightarrow> ev_uuid x \<in> dom f"
    by (auto split: if_splits)
  from Cons.prems have sub1: "set ks' \<subseteq> dom (merge_map x f)"
    by (auto simp: ks'_def dom_merge_map)
  have "dom (merge_map x f) \<subseteq> dom (merge_map x (merge_map e f))"
    by (auto simp: dom_merge_map)
  with sub1 have sub2: "set ks' \<subseteq> dom (merge_map x (merge_map e f))" by blast
  have "merge_map e (run_map (x # w) (merge_map e f)) =
      merge_map e (run_map w (merge_map x (merge_map e f)))" by simp
  also have "\<dots> = merge_map e (run_map w (merge_map e (merge_map x (merge_map e f))))"
    by (rule Cons.IH [OF known sub2, symmetric])
  also have "\<dots> = merge_map e (run_map w (merge_map e (merge_map x f)))"
    by (simp only: merge_map_absorb [OF x_ok])
  also have "\<dots> = merge_map e (run_map w (merge_map x f))"
    by (rule Cons.IH [OF known sub1])
  finally show ?case by simp
qed

lemma leaves_known_butlast: "leaves_known ks (w @ [e]) \<Longrightarrow> leaves_known ks w"
  by (induction w arbitrary: ks) (auto split: if_splits)

lemma run_map_idem:
  assumes "leaves_known ks w" and "set ks \<subseteq> dom f"
  shows "run_map w (run_map w f) = run_map w f"
  using assms
proof (induction w rule: rev_induct)
  case Nil
  show ?case by simp
next
  case (snoc e w)
  from snoc.prems have known: "leaves_known ks w" by (auto dest: leaves_known_butlast)
  from snoc.prems(2) dom_run_map_mono [of f w] have sub: "set ks \<subseteq> dom (run_map w f)" by blast
  have "run_map (w @ [e]) (run_map (w @ [e]) f) =
      merge_map e (run_map w (merge_map e (run_map w f)))"
    by (simp add: run_map_snoc)
  also have "\<dots> = merge_map e (run_map w (run_map w f))"
    by (rule run_map_absorb [OF known sub])
  also have "\<dots> = merge_map e (run_map w f)"
    by (simp add: snoc.IH [OF known snoc.prems(2)])
  finally show ?case by (simp add: run_map_snoc)
qed

lemma lookup_player_eq: "lookup_player d = map_of (players d)"
  by (rule ext) (simp add: lookup_player_def)

lemma keys_are_dom: "fst ` set (players d) = dom (lookup_player d)"
  by (simp add: lookup_player_eq dom_map_of_conv_image_fst)

lemma update_where_idem:
  assumes "\<And>r. f (f r) = f r"
  shows "update_where u f (update_where u f ps) = update_where u f ps"
  by (induction ps) (auto simp: update_where_def assms)

lemma upsert_join_idem: "upsert_join e (upsert_join e ps) = upsert_join e ps"
proof (cases "ev_uuid e \<in> fst ` set ps")
  case True
  then have "ev_uuid e \<in> fst ` set (update_where (ev_uuid e) (conflict_update e) ps)"
    using keys_update_where [of "ev_uuid e" "conflict_update e" ps]
    by (metis set_map)
  with True show ?thesis
    by (simp add: upsert_join_def update_where_idem conflict_update_def)
next
  case False
  then have "update_where (ev_uuid e) (conflict_update e) ps = ps"
    by (rule update_where_absent)
  moreover have "conflict_update e (inserted_row e) = inserted_row e"
    by (simp add: conflict_update_def inserted_row_def)
  ultimately show ?thesis
    using False by (simp add: upsert_join_def update_where_def)
qed

lemma players_merge_event_idem:
  "players (merge_event e (merge_event e d)) = players (merge_event e d)"
  by (simp add: merge_event_def log_event_def upsert_join_idem update_where_idem
      leave_update_def)

lemma keys_merge_event_present:
  assumes "ev_type e = ''join'' \<longrightarrow> ev_uuid e \<in> set (map fst (players d))"
  shows "map fst (players (merge_event e d)) = map fst (players d)"
  using assms
  by (auto simp: merge_event_def log_event_def upsert_join_def keys_update_where)

lemma keys_merge_events_present:
  assumes "\<forall>e \<in> set es. ev_type e = ''join'' \<longrightarrow> ev_uuid e \<in> set (map fst (players d))"
  shows "map fst (players (merge_events es d)) = map fst (players d)"
  using assms
proof (induction es arbitrary: d)
  case Nil
  show ?case by simp
next
  case (Cons e es)
  from Cons.prems have k: "map fst (players (merge_event e d)) = map fst (players d)"
    by (intro keys_merge_event_present) simp
  with Cons.prems
  have "\<forall>x \<in> set es. ev_type x = ''join'' \<longrightarrow> ev_uuid x \<in> set (map fst (players (merge_event e d)))"
    by simp
  from Cons.IH [OF this] k show ?case by simp
qed

lemma joined_in_dom_run_map:
  "e \<in> set es \<Longrightarrow> ev_type e = ''join'' \<Longrightarrow> ev_uuid e \<in> dom (run_map es f)"
proof (induction es arbitrary: f)
  case Nil
  then show ?case by simp
next
  case (Cons x es)
  show ?case
  proof (cases "e = x")
    case True
    with Cons.prems have "ev_uuid e \<in> dom (merge_map x f)"
      by (simp add: dom_merge_map)
    with dom_run_map_mono [of "merge_map x f" es] show ?thesis by auto
  next
    case False
    with Cons.prems have "e \<in> set es" by simp
    from Cons.IH [OF this Cons.prems(2)] show ?thesis by simp
  qed
qed

lemma keys_merge_events_twice:
  "map fst (players (merge_events es (merge_events es d))) =
     map fst (players (merge_events es d))"
proof (rule keys_merge_events_present, intro ballI impI)
  fix e assume "e \<in> set es" and "ev_type e = ''join''"
  then have "ev_uuid e \<in> dom (run_map es (lookup_player d))"
    by (rule joined_in_dom_run_map)
  then show "ev_uuid e \<in> set (map fst (players (merge_events es d)))"
    by (simp add: keys_are_dom lookup_merge_events)
qed

lemma keys_merge_events_distinct:
  "distinct (map fst (players d)) \<Longrightarrow> distinct (map fst (players (merge_events es d)))"
  by (induction es arbitrary: d) (simp_all add: keys_merge_event)

lemma alist_eqI:
  assumes "distinct (map fst xs)" and "map fst xs = map fst ys" and "map_of xs = map_of ys"
  shows "xs = ys"
proof -
  have "map snd xs = map snd ys"
  proof (rule nth_equalityI)
    show "length (map snd xs) = length (map snd ys)"
      using assms(2) by (metis length_map)
  next
    fix i assume "i < length (map snd xs)"
    then have i: "i < length xs" by simp
    then have iy: "i < length ys" using assms(2) by (metis length_map)
    from assms(1) i have "map_of xs (fst (xs ! i)) = Some (snd (xs ! i))"
      by (simp add: map_of_eq_Some_iff)
    moreover from assms(1,2) iy have "map_of ys (fst (ys ! i)) = Some (snd (ys ! i))"
      by (simp add: map_of_eq_Some_iff)
    moreover from assms(2) i iy have "fst (xs ! i) = fst (ys ! i)"
      by (metis nth_map)
    ultimately have "snd (xs ! i) = snd (ys ! i)"
      using assms(3) by simp
    with i iy show "map snd xs ! i = map snd ys ! i" by simp
  qed
  with assms(2) show ?thesis
    by (metis zip_map_fst_snd)
qed

lemma map_of_upsert_metadata: "map_of (upsert_metadata k v m) = (map_of m)(k \<mapsto> v)"
proof (cases "k \<in> fst ` set m")
  case True
  have "map_of (map (\<lambda>(k', v'). if k' = k then (k', v) else (k', v')) m) k' =
      (if k' = k then map_option (\<lambda>_. v) (map_of m k') else map_of m k')" for k'
    by (induction m) auto
  moreover from True obtain v' where "map_of m k = Some v'"
    by (metis domD dom_map_of_conv_image_fst)
  ultimately show ?thesis
    using True by (auto simp: upsert_metadata_def fun_eq_iff)
next
  case False
  then have "map_of m k = None" by (simp add: map_of_eq_None_iff)
  with False show ?thesis
    by (auto simp: upsert_metadata_def fun_eq_iff map_add_def split: option.splits)
qed

lemma metadata_merge_event: "metadata (merge_event e d) = metadata d"
  by (simp add: merge_event_def log_event_def)

lemma metadata_merge_events: "metadata (merge_events es d) = metadata d"
  by (induction es arbitrary: d) (simp_all add: metadata_merge_event)

subsection \<open>The metric sampler\<close>

















section \<open>The merge of one event\<close>

text \<open>
  C4. Merging a join upserts the row keyed by the event's uuid. With no row for the key,
  the row created has online 1 and name, last_login and world from the event (the
  other columns take their defaults); with a row, name, last_login and world are
  overwritten with the event's values and online is set to 1, whatever the row held,
  and the columns last_logout and total_playtime_seconds keep their values. A key
  that was unique stays unique.
\<close>

theorem join_upserts_player:
  assumes "ev_type e = ''join''"
  shows "lookup_player (merge_event e d) (ev_uuid e) =
      Some (case lookup_player d (ev_uuid e) of
          None \<Rightarrow>
            \<lparr>p_name = ev_name e, p_online = 1, p_last_login = Some (ev_timestamp e),
             p_last_logout = None, p_world = ev_world e, p_total_playtime_seconds = 0\<rparr>
        | Some r \<Rightarrow>
            r\<lparr>p_name := ev_name e, p_online := 1, p_last_login := Some (ev_timestamp e),
              p_world := ev_world e\<rparr>)
    \<and> (distinct (map fst (players d)) \<longrightarrow> distinct (map fst (players (merge_event e d))))"
  using assms
  by (simp add: lookup_merge_event inserted_row_def conflict_update_def keys_merge_event
      split: option.splits)

theorem join_upserts_player_witness:
  "ev_type alice_join = ''join''
   \<and> lookup_player (merge_event alice_join empty_db) ''abc-123'' =
      Some \<lparr>p_name = ''Alice'', p_online = 1, p_last_login = Some ''2024-01-01T10:00:00+0000'',
            p_last_logout = None, p_world = Some ''Overworld'', p_total_playtime_seconds = 0\<rparr>
   \<and> distinct (map fst (players (merge_event alice_join empty_db)))"
  using join_upserts_player [of alice_join empty_db]
  by (simp add: alice_join_def empty_db_def lookup_player_def)

text \<open>
  C5. A leave for a uuid with no row leaves the table \<^verbatim>\<open>players\<close> as it is (no row is
  created, none is changed) and appends one row to the event log, with the event's
  columns; a leave for a uuid with a row sets that row's online to 0 and its
  last_logout to the event's timestamp.
\<close>

theorem leave_unknown_player_is_noop:
  assumes "ev_type e = ''leave''"
  shows "(lookup_player d (ev_uuid e) = None \<longrightarrow> players (merge_event e d) = players d)
    \<and> player_events (merge_event e d) =
        player_events d @
          [\<lparr>pe_id = Suc (player_events_seq d), pe_timestamp = ev_timestamp e,
            pe_uuid = ev_uuid e, pe_name = ev_name e, pe_event_type = ''leave'',
            pe_world = ev_world e\<rparr>]
    \<and> (\<forall>r. lookup_player d (ev_uuid e) = Some r \<longrightarrow>
          lookup_player (merge_event e d) (ev_uuid e) =
            Some (r\<lparr>p_online := 0, p_last_logout := Some (ev_timestamp e)\<rparr>))"
proof -
  have "players (merge_event e d) = players d" if "lookup_player d (ev_uuid e) = None"
  proof -
    from that have "ev_uuid e \<notin> fst ` set (players d)"
      by (simp add: lookup_player_def map_of_eq_None_iff)
    then show ?thesis
      using assms by (simp add: merge_event_def log_event_def update_where_absent)
  qed
  moreover have "player_events (merge_event e d) =
        player_events d @
          [\<lparr>pe_id = Suc (player_events_seq d), pe_timestamp = ev_timestamp e,
            pe_uuid = ev_uuid e, pe_name = ev_name e, pe_event_type = ''leave'',
            pe_world = ev_world e\<rparr>]"
    using assms by (simp add: player_events_merge_event)
  moreover have "lookup_player (merge_event e d) (ev_uuid e) =
        Some (r\<lparr>p_online := 0, p_last_logout := Some (ev_timestamp e)\<rparr>)"
    if "lookup_player d (ev_uuid e) = Some r" for r
    using that assms by (simp add: lookup_merge_event leave_update_def)
  ultimately show ?thesis by blast
qed

theorem leave_unknown_player_is_noop_witness:
  "ev_type alice_leave = ''leave''
   \<and> lookup_player empty_db (ev_uuid alice_leave) = None
   \<and> players (merge_event alice_leave empty_db) = []
   \<and> player_events (merge_event alice_leave empty_db) =
        [\<lparr>pe_id = 1, pe_timestamp = ''2024-01-01T11:30:00+0000'', pe_uuid = ''abc-123'',
          pe_name = ''Alice'', pe_event_type = ''leave'', pe_world = None\<rparr>]
   \<and> lookup_player (merge_event alice_leave (merge_event alice_join empty_db)) ''abc-123'' =
      Some \<lparr>p_name = ''Alice'', p_online = 0, p_last_login = Some ''2024-01-01T10:00:00+0000'',
            p_last_logout = Some ''2024-01-01T11:30:00+0000'', p_world = Some ''Overworld'',
            p_total_playtime_seconds = 0\<rparr>"
proof -
  let ?d = "merge_event alice_join empty_db"
  let ?r = "\<lparr>p_name = ''Alice'', p_online = 1,
      p_last_login = Some ''2024-01-01T10:00:00+0000'', p_last_logout = None,
      p_world = Some ''Overworld'', p_total_playtime_seconds = 0\<rparr>"
  have h: "ev_type alice_leave = ''leave''"
    by (simp add: alice_leave_def)
  have uid: "ev_uuid alice_leave = ''abc-123''"
    by (simp add: alice_leave_def)
  have absent: "lookup_player empty_db (ev_uuid alice_leave) = None"
    by (rule lookup_empty_db)
  have present: "lookup_player ?d (ev_uuid alice_leave) = Some ?r"
    by (simp add: lookup_merge_event lookup_empty_db inserted_row_def alice_join_def uid)
  from leave_unknown_player_is_noop [OF h, of empty_db] absent
  have a: "players (merge_event alice_leave empty_db) = []"
    and b: "player_events (merge_event alice_leave empty_db) =
        [\<lparr>pe_id = 1, pe_timestamp = ''2024-01-01T11:30:00+0000'', pe_uuid = ''abc-123'',
          pe_name = ''Alice'', pe_event_type = ''leave'', pe_world = None\<rparr>]"
    by (simp_all add: empty_db_def alice_leave_def)
  from leave_unknown_player_is_noop [OF h, of ?d] present
  have "lookup_player (merge_event alice_leave ?d) (ev_uuid alice_leave) =
      Some (?r\<lparr>p_online := 0, p_last_logout := Some (ev_timestamp alice_leave)\<rparr>)"
    by blast
  then have c: "lookup_player (merge_event alice_leave ?d) ''abc-123'' =
      Some \<lparr>p_name = ''Alice'', p_online = 0, p_last_login = Some ''2024-01-01T10:00:00+0000'',
            p_last_logout = Some ''2024-01-01T11:30:00+0000'', p_world = Some ''Overworld'',
            p_total_playtime_seconds = 0\<rparr>"
    by (simp add: uid) (simp add: alice_leave_def)
  from h absent a b c show ?thesis by blast
qed

text \<open>
  C9. A leave for a uuid with a row changes only the columns online and last_logout of
  that row: name, last_login, world and total_playtime_seconds keep their values, so a
  world that was set stays set while the player is offline. And the merge of any
  event, join or leave, leaves the row of every other uuid as it was.
\<close>

theorem leave_changes_only_online_and_last_logout:
  assumes "ev_type e = ''leave''" and "lookup_player d (ev_uuid e) = Some r"
  shows "(\<exists>r'. lookup_player (merge_event e d) (ev_uuid e) = Some r'
        \<and> p_name r' = p_name r \<and> p_last_login r' = p_last_login r
        \<and> p_world r' = p_world r
        \<and> p_total_playtime_seconds r' = p_total_playtime_seconds r
        \<and> (p_world r \<noteq> None \<longrightarrow> p_world r' \<noteq> None))
    \<and> (\<forall>e' k. k \<noteq> ev_uuid e' \<longrightarrow> lookup_player (merge_event e' d) k = lookup_player d k)"
  using assms by (simp add: lookup_merge_event leave_update_def)

theorem leave_changes_only_online_and_last_logout_witness:
  "ev_type alice_leave = ''leave''
   \<and> lookup_player (merge_event alice_join empty_db) (ev_uuid alice_leave) =
      Some \<lparr>p_name = ''Alice'', p_online = 1, p_last_login = Some ''2024-01-01T10:00:00+0000'',
            p_last_logout = None, p_world = Some ''Overworld'', p_total_playtime_seconds = 0\<rparr>
   \<and> (\<exists>r'. lookup_player (merge_event alice_leave (merge_event alice_join empty_db))
            ''abc-123'' = Some r'
        \<and> p_name r' = ''Alice'' \<and> p_last_login r' = Some ''2024-01-01T10:00:00+0000''
        \<and> p_world r' = Some ''Overworld'' \<and> p_total_playtime_seconds r' = 0)
   \<and> lookup_player (merge_event bob_join (merge_event alice_join empty_db)) ''abc-123'' =
      lookup_player (merge_event alice_join empty_db) ''abc-123''"
proof -
  let ?d = "merge_event alice_join empty_db"
  let ?r = "\<lparr>p_name = ''Alice'', p_online = 1,
      p_last_login = Some ''2024-01-01T10:00:00+0000'', p_last_logout = None,
      p_world = Some ''Overworld'', p_total_playtime_seconds = 0\<rparr>"
  have h1: "ev_type alice_leave = ''leave''"
    by (simp add: alice_leave_def)
  have h2: "lookup_player ?d (ev_uuid alice_leave) = Some ?r"
    by (simp add: lookup_merge_event lookup_empty_db inserted_row_def alice_join_def
        alice_leave_def)
  have uid: "ev_uuid alice_leave = ''abc-123''"
    by (simp add: alice_leave_def)
  note c = leave_changes_only_online_and_last_logout [OF h1 h2]
  from c obtain r' where "lookup_player (merge_event alice_leave ?d) (ev_uuid alice_leave) = Some r'"
    and "p_name r' = p_name ?r" and "p_last_login r' = p_last_login ?r"
    and "p_world r' = p_world ?r"
    and "p_total_playtime_seconds r' = p_total_playtime_seconds ?r"
    by blast
  then have "\<exists>r'. lookup_player (merge_event alice_leave ?d) ''abc-123'' = Some r'
      \<and> p_name r' = ''Alice'' \<and> p_last_login r' = Some ''2024-01-01T10:00:00+0000''
      \<and> p_world r' = Some ''Overworld'' \<and> p_total_playtime_seconds r' = 0"
    by (simp add: uid)
  moreover from c have "lookup_player (merge_event bob_join ?d) ''abc-123'' =
      lookup_player ?d ''abc-123''"
    by (simp add: bob_join_def)
  ultimately show ?thesis using h1 h2 by blast
qed

section \<open>Merging a batch twice\<close>

text \<open>
  C1. Merging one event twice leaves the table \<^verbatim>\<open>players\<close> as the first merge left
  it, for a join and for a leave. Merging a whole batch twice gives every uuid the row
  it has after one merge, and (the key being unique) the same table, provided every
  leave of the batch meets a row on the first pass: its uuid has a row before the
  batch, or an earlier event of the batch is a join of that uuid.
\<close>

theorem merge_twice_same_players:
  "players (merge_event e (merge_event e d)) = players (merge_event e d)
   \<and> (leaves_known (map fst (players d)) es \<longrightarrow>
        lookup_player (merge_events es (merge_events es d)) = lookup_player (merge_events es d)
        \<and> (distinct (map fst (players d)) \<longrightarrow>
             players (merge_events es (merge_events es d)) = players (merge_events es d)))"
proof -
  have lk: "lookup_player (merge_events es (merge_events es d)) = lookup_player (merge_events es d)"
    if "leaves_known (map fst (players d)) es"
  proof -
    have "set (map fst (players d)) \<subseteq> dom (lookup_player d)"
      by (simp add: keys_are_dom)
    from run_map_idem [OF that this] show ?thesis
      by (simp add: lookup_merge_events)
  qed
  have "players (merge_events es (merge_events es d)) = players (merge_events es d)"
    if "leaves_known (map fst (players d)) es" and "distinct (map fst (players d))"
  proof (rule alist_eqI)
    from that(2) show "distinct (map fst (players (merge_events es (merge_events es d))))"
      by (intro keys_merge_events_distinct)
    show "map fst (players (merge_events es (merge_events es d))) =
        map fst (players (merge_events es d))"
      by (rule keys_merge_events_twice)
    from lk [OF that(1)]
    show "map_of (players (merge_events es (merge_events es d))) =
        map_of (players (merge_events es d))"
      by (simp add: lookup_player_eq)
  qed
  with lk players_merge_event_idem show ?thesis by blast
qed

theorem merge_twice_same_players_witness:
  "leaves_known (map fst (players empty_db)) [alice_join, alice_leave, bob_join]
   \<and> distinct (map fst (players empty_db))
   \<and> players (merge_events [alice_join, alice_leave, bob_join]
        (merge_events [alice_join, alice_leave, bob_join] empty_db)) =
      players (merge_events [alice_join, alice_leave, bob_join] empty_db)
   \<and> players (merge_event alice_join (merge_event alice_join empty_db)) =
      players (merge_event alice_join empty_db)"
proof -
  have h1: "leaves_known (map fst (players empty_db)) [alice_join, alice_leave, bob_join]"
    by (simp add: empty_db_def alice_join_def alice_leave_def bob_join_def)
  have h2: "distinct (map fst (players empty_db))"
    by (simp add: empty_db_def)
  from merge_twice_same_players [of alice_join empty_db "[alice_join, alice_leave, bob_join]"] h1 h2
  show ?thesis by blast
qed

text \<open>
  Without the proviso idempotence fails. A leave of an unknown uuid followed by a join of
  that uuid: on the first pass the leave matches no row, on the second pass it matches
  the row the join created and sets its last_logout.
\<close>

theorem merge_twice_differs_counterexample:
  "lookup_player (merge_events [early_leave, alice_join]
        (merge_events [early_leave, alice_join] empty_db)) ''abc-123'' =
      Some \<lparr>p_name = ''Alice'', p_online = 1, p_last_login = Some ''2024-01-01T10:00:00+0000'',
            p_last_logout = Some ''2024-01-01T09:00:00+0000'', p_world = Some ''Overworld'',
            p_total_playtime_seconds = 0\<rparr>
   \<and> lookup_player (merge_events [early_leave, alice_join] empty_db) ''abc-123'' =
      Some \<lparr>p_name = ''Alice'', p_online = 1, p_last_login = Some ''2024-01-01T10:00:00+0000'',
            p_last_logout = None, p_world = Some ''Overworld'',
            p_total_playtime_seconds = 0\<rparr>
   \<and> players (merge_events [early_leave, alice_join]
        (merge_events [early_leave, alice_join] empty_db)) \<noteq>
      players (merge_events [early_leave, alice_join] empty_db)"
  by (simp add: lookup_player_def merge_event_def log_event_def upsert_join_def
      update_where_def inserted_row_def conflict_update_def leave_update_def
      early_leave_def alice_join_def empty_db_def)

text \<open>
  C10. The event log is not idempotent under a repeated merge: merging a batch and then
  the same batch again appends one row per event each time, so the log ends with the
  batch's rows twice, under fresh consecutive ids.
\<close>

theorem event_log_append_not_idempotent:
  "map row_columns (player_events (merge_events es (merge_events es d))) =
      map row_columns (player_events d) @ map row_of_event es @ map row_of_event es
   \<and> map pe_id (player_events (merge_events es (merge_events es d))) =
      map pe_id (player_events d) @
        [Suc (player_events_seq d) ..< Suc (player_events_seq d + 2 * length es)]
   \<and> length (player_events (merge_events es (merge_events es d))) =
      length (player_events d) + 2 * length es"
proof -
  let ?s = "player_events_seq d" and ?n = "length es"
  have "[Suc ?s ..< Suc (?s + ?n)] @ [Suc (?s + ?n) ..< Suc (?s + ?n + ?n)] =
      [Suc ?s ..< Suc (?s + 2 * ?n)]"
    using upt_add_eq_append [of "Suc ?s" "Suc (?s + ?n)" ?n] by (simp add: mult_2 add.assoc del: upt_Suc)
  then have ids: "map pe_id (player_events (merge_events es (merge_events es d))) =
      map pe_id (player_events d) @ [Suc ?s ..< Suc (?s + 2 * ?n)]"
    by (simp add: ids_merge_events seq_merge_events del: upt_Suc)
  have cols: "map row_columns (player_events (merge_events es (merge_events es d))) =
      map row_columns (player_events d) @ map row_of_event es @ map row_of_event es"
    by (simp add: columns_merge_events)
  from arg_cong [OF cols, of length]
  have "length (player_events (merge_events es (merge_events es d))) =
      length (player_events d) + 2 * ?n"
    by simp
  with ids cols show ?thesis by blast
qed

section \<open>The checkpoint\<close>

text \<open>
  C2. An ingestion tick whose journal query fails or whose batch is empty leaves the
  database, and so the checkpoint, as it was. A tick with a non-empty batch sets the
  checkpoint to the timestamp of the last event in extraction order, whatever the
  stored value was. The stored value therefore does not move backwards as long as
  that last timestamp is not smaller than it; the code makes no comparison.
\<close>

theorem checkpoint_after_tick:
  assumes "journalctl (since_ts d) = (output, rc)" and "parse output = events"
  shows "(rc \<noteq> 0 \<or> events = [] \<longrightarrow> check_player_events journalctl parse d = d)
    \<and> (rc = 0 \<and> events \<noteq> [] \<longrightarrow>
          checkpoint (check_player_events journalctl parse d) =
            Some (ev_timestamp (last events)))
    \<and> (\<forall>c. checkpoint d = Some c
            \<and> (rc = 0 \<and> events \<noteq> [] \<longrightarrow> c \<le> ev_timestamp (last events))
          \<longrightarrow> (\<exists>c'. checkpoint (check_player_events journalctl parse d) = Some c' \<and> c \<le> c'))"
proof -
  have noop: "check_player_events journalctl parse d = d" if "rc \<noteq> 0 \<or> events = []"
    using that assms by (auto simp: check_player_events_def)
  have adv: "checkpoint (check_player_events journalctl parse d) =
      Some (ev_timestamp (last events))" if "rc = 0 \<and> events \<noteq> []"
    using that assms
    by (simp add: check_player_events_def checkpoint_def select_metadata_def
        map_of_upsert_metadata Let_def)
  have "\<exists>c'. checkpoint (check_player_events journalctl parse d) = Some c' \<and> c \<le> c'"
    if "checkpoint d = Some c" and "rc = 0 \<and> events \<noteq> [] \<longrightarrow> c \<le> ev_timestamp (last events)"
    for c
  proof (cases "rc = 0 \<and> events \<noteq> []")
    case True
    with that(2) adv show ?thesis by simp
  next
    case False
    with noop that(1) show ?thesis by auto
  qed
  with noop adv show ?thesis by blast
qed

theorem checkpoint_after_tick_witness:
  "checkpoint (check_player_events (\<lambda>_. (''log'', 0)) (\<lambda>_. [alice_join, alice_leave]) empty_db) =
      Some ''2024-01-01T11:30:00+0000''
   \<and> check_player_events (\<lambda>_. (''log'', 0)) (\<lambda>_. []) later_checkpoint_db = later_checkpoint_db
   \<and> checkpoint later_checkpoint_db = Some ''2024-01-02T10:00:00+0000''
   \<and> (\<exists>c'. checkpoint (check_player_events (\<lambda>_. (''log'', 0)) (\<lambda>_. []) later_checkpoint_db) = Some c'
         \<and> ''2024-01-02T10:00:00+0000'' \<le> c')"
proof -
  have a: "checkpoint (check_player_events (\<lambda>_. (''log'', 0)) (\<lambda>_. [alice_join, alice_leave]) empty_db) =
      Some ''2024-01-01T11:30:00+0000''"
    using checkpoint_after_tick [of "\<lambda>_. (''log'', 0)" empty_db "''log''" 0
        "\<lambda>_. [alice_join, alice_leave]" "[alice_join, alice_leave]"]
    by (simp add: alice_leave_def)
  have c: "checkpoint later_checkpoint_db = Some ''2024-01-02T10:00:00+0000''"
    by (simp add: later_checkpoint_db_def checkpoint_def select_metadata_def empty_db_def)
  note t = checkpoint_after_tick [of "\<lambda>_. (''log'', 0)" later_checkpoint_db "''log''" 0
        "\<lambda>_. []" "[]"]
  from t have b: "check_player_events (\<lambda>_. (''log'', 0)) (\<lambda>_. []) later_checkpoint_db = later_checkpoint_db"
    by simp
  from t c have "\<exists>c'. checkpoint (check_player_events (\<lambda>_. (''log'', 0)) (\<lambda>_. []) later_checkpoint_db) = Some c'
         \<and> ''2024-01-02T10:00:00+0000'' \<le> c'"
    by simp
  with a b c show ?thesis by blast
qed

text \<open>
  The checkpoint can move backwards: the stored value is of 2 January and the one event
  the journal returns is stamped 1 January (a wall clock that was set back), so the
  tick stores the earlier timestamp.
\<close>

theorem checkpoint_moves_backwards_counterexample:
  "checkpoint later_checkpoint_db = Some ''2024-01-02T10:00:00+0000''
   \<and> checkpoint (check_player_events (\<lambda>_. (''log'', 0)) (\<lambda>_. [alice_join]) later_checkpoint_db) =
      Some ''2024-01-01T10:00:00+0000''
   \<and> ''2024-01-01T10:00:00+0000'' < ''2024-01-02T10:00:00+0000''"
  by (simp add: check_player_events_def since_ts_def checkpoint_def select_metadata_def
      later_checkpoint_db_def empty_db_def metadata_merge_event upsert_metadata_def
      alice_join_def Let_def)

section \<open>Retention\<close>




section \<open>The metric sampler\<close>





section \<open>The scheduler loop\<close>




end
